theory Spec2Isabelle
  imports Main "HOL-Library.Word"
begin

section \<open>The squelch detector base class (Squelch.h)\<close>

text \<open>
  The class \<^verbatim>\<open>Squelch\<close> keeps three state fields besides its name: the latched flag
  \<^verbatim>\<open>m_open\<close>, the configured hang duration \<^verbatim>\<open>hangtime\<close> and the countdown
  \<^verbatim>\<open>hangtime_left\<close>. The two counters are C++ \<^verbatim>\<open>int\<close>s: they are 32-bit words
  here, read as two's complement by \<open>sint\<close>, so that \<open>-\<close> and \<open>*\<close> wrap around where
  the machine's do.

  The signal \<^verbatim>\<open>squelchOpen\<close> is delivered synchronously to its subscribers; the model
  records every emission, oldest first, in the field \<open>squelchOpen\<close> of the state.
\<close>

type_synonym cint = "32 word"

record squelch =
  m_name :: string
  m_open :: bool
  hangtime :: cint
  hangtime_left :: cint
  squelchOpen :: "bool list"

text \<open>The constructor: \<^verbatim>\<open>m_open(false), hangtime(1), hangtime_left(0)\<close>.\<close>

definition Squelch :: squelch where
  "Squelch = \<lparr>m_name = [], m_open = False, hangtime = 1, hangtime_left = 0,
     squelchOpen = []\<rparr>"

text \<open>Emitting the signal \<^verbatim>\<open>squelchOpen(is_open)\<close>.\<close>

definition emit :: "bool \<Rightarrow> squelch \<Rightarrow> squelch" where
  "emit is_open s = s\<lparr>squelchOpen := squelchOpen s @ [is_open]\<rparr>"

definition setHangtime :: "cint \<Rightarrow> squelch \<Rightarrow> squelch" where
  "setHangtime hang_samples s =
     s\<lparr>hangtime := (if 1 \<le> sint hang_samples then hang_samples else 1)\<rparr>"

definition setOpen :: "bool \<Rightarrow> squelch \<Rightarrow> squelch" where
  "setOpen is_open s =
     (if is_open then
        (let s1 = s\<lparr>hangtime_left := 0\<rparr>
         in if \<not> m_open s1 then emit True (s1\<lparr>m_open := True\<rparr>) else s1)
      else if m_open s \<and> sint (hangtime_left s) \<le> 0 then
        s\<lparr>hangtime_left := hangtime s\<rparr>
      else s)"

definition isOpen :: "squelch \<Rightarrow> bool" where
  "isOpen s = (m_open s \<or> 0 < sint (hangtime_left s))"

subsection \<open>The detector\<close>

text \<open>
  \<^verbatim>\<open>processSamples\<close> is pure virtual. A detector cannot reach the private fields;
  what it can do to the engine during one call is a finite sequence of calls of the
  protected \<^verbatim>\<open>setOpen\<close> and of the public \<^verbatim>\<open>setHangtime\<close>, after which it returns
  the number of samples it consumed. One run of a detector is therefore given by that
  sequence and that number; the sample buffer itself is never inspected by the base
  class.
\<close>

datatype det_call = DetSetOpen bool | DetSetHangtime cint

type_synonym det_run = "det_call list \<times> cint"

fun det_exec :: "det_call \<Rightarrow> squelch \<Rightarrow> squelch" where
  "det_exec (DetSetOpen is_open) s = setOpen is_open s"
| "det_exec (DetSetHangtime hang_samples) s = setHangtime hang_samples s"

definition processSamples :: "det_run \<Rightarrow> cint \<Rightarrow> squelch \<Rightarrow> cint \<times> squelch" where
  "processSamples det count s = (snd det, fold det_exec (fst det) s)"

definition audioIn :: "det_run \<Rightarrow> cint \<Rightarrow> squelch \<Rightarrow> cint \<times> squelch" where
  "audioIn det count s =
     (let (ret_count, s1) = processSamples det count s;
          s2 = (if 0 < sint (hangtime_left s1) then
                  (let s' = s1\<lparr>hangtime_left := hangtime_left s1 - count\<rparr>
                   in if sint (hangtime_left s') \<le> 0
                      then emit False (s'\<lparr>m_open := False\<rparr>)
                      else s')
                else s1)
      in (ret_count, s2))"

subsection \<open>Configuration\<close>

text \<open>
  \<^verbatim>\<open>atoi\<close> is the C library's: \<^verbatim>\<open>(int) strtol(nptr, NULL, 10)\<close>, with a \<^verbatim>\<open>long\<close> of
  64 bits. \<^verbatim>\<open>strtol\<close> skips white space, reads an optional sign and then decimal
  digits up to the first other character; with no digit the result is 0. A number
  beyond the range of \<^verbatim>\<open>long\<close> is replaced by \<^verbatim>\<open>LONG_MAX\<close> or \<^verbatim>\<open>LONG_MIN\<close>. The
  conversion to \<^verbatim>\<open>int\<close> keeps the low 32 bits.
\<close>

definition isspace :: "char \<Rightarrow> bool" where
  "isspace c = (c \<in> set [CHR '' '', CHR 0x09, CHR 0x0A, CHR 0x0B, CHR 0x0C, CHR 0x0D])"

definition isdigit :: "char \<Rightarrow> bool" where
  "isdigit c = (48 \<le> (of_char c :: nat) \<and> (of_char c :: nat) \<le> 57)"

definition LONG_MAX :: int where
  "LONG_MAX = 2 ^ 63 - 1"

definition LONG_MIN :: int where
  "LONG_MIN = - (2 ^ 63)"

fun strtol_digits :: "string \<Rightarrow> int \<Rightarrow> int" where
  "strtol_digits [] acc = acc"
| "strtol_digits (c # cs) acc =
     (if isdigit c then strtol_digits cs (acc * 10 + (of_char c - 48)) else acc)"

definition strtol :: "string \<Rightarrow> int" where
  "strtol nptr =
     (case dropWhile isspace nptr of
        [] \<Rightarrow> 0
      | c # cs \<Rightarrow>
          if c = CHR ''-'' then max LONG_MIN (- strtol_digits cs 0)
          else if c = CHR ''+'' then min LONG_MAX (strtol_digits cs 0)
          else min LONG_MAX (strtol_digits (c # cs) 0))"

definition atoi :: "string \<Rightarrow> cint" where
  "atoi nptr = word_of_int (strtol nptr)"

text \<open>
  \<^verbatim>\<open>Async::Config::getValue(section, tag, value)\<close> is declared in another file: the
  configuration is a parameter here, a lookup by section and tag that yields the
  stored string when the call returns true.
\<close>

type_synonym config = "string \<Rightarrow> string \<Rightarrow> string option"

definition initialize :: "config \<Rightarrow> string \<Rightarrow> squelch \<Rightarrow> bool \<times> squelch" where
  "initialize cfg rx_name s =
     (let sql_hangtime =
            (case cfg rx_name ''SQL_HANGTIME'' of
               Some v \<Rightarrow> atoi v * 8
             | None \<Rightarrow> 0)
      in (True, setHangtime sql_hangtime s))"

text \<open>
  The decimal numeral of a number, as a configuration file holds it: the reference
  against which the value read by \<^verbatim>\<open>initialize\<close> is stated.
\<close>

fun decimal :: "nat \<Rightarrow> string" where
  "decimal n =
     (if n < 10 then [char_of (48 + n)]
      else decimal (n div 10) @ [char_of (48 + n mod 10)])"

declare decimal.simps [simp del]

subsection \<open>Sequences of calls\<close>

datatype call =
    SetOpen bool
  | SetHangtime cint
  | AudioIn det_run cint
  | Initialize config string

fun exec :: "call \<Rightarrow> squelch \<Rightarrow> squelch" where
  "exec (SetOpen is_open) s = setOpen is_open s"
| "exec (SetHangtime hang_samples) s = setHangtime hang_samples s"
| "exec (AudioIn det count) s = snd (audioIn det count s)"
| "exec (Initialize cfg rx_name) s = snd (initialize cfg rx_name s)"

definition run :: "call list \<Rightarrow> squelch \<Rightarrow> squelch" where
  "run cs s = fold exec cs s"

text \<open>
  Whether a call asks the engine to close: \<^verbatim>\<open>setOpen(false)\<close>, made directly or by the
  detector during \<^verbatim>\<open>audioIn\<close>.
\<close>

fun det_closes :: "det_call \<Rightarrow> bool" where
  "det_closes (DetSetOpen is_open) = (\<not> is_open)"
| "det_closes (DetSetHangtime hang_samples) = False"

fun closes :: "call \<Rightarrow> bool" where
  "closes (SetOpen is_open) = (\<not> is_open)"
| "closes (SetHangtime hang_samples) = False"
| "closes (AudioIn det count) = list_ex det_closes (fst det)"
| "closes (Initialize cfg rx_name) = False"

section \<open>Auxiliary facts\<close>

subsection \<open>What each operation does to each field\<close>

lemma setOpen_True_fields:
  "hangtime_left (setOpen True s) = 0"
  "m_open (setOpen True s) = True"
  "hangtime (setOpen True s) = hangtime s"
  "squelchOpen (setOpen True s) = (if m_open s then squelchOpen s else squelchOpen s @ [True])"
  by (simp_all add: setOpen_def emit_def Let_def)

lemma setOpen_False_fields:
  "hangtime_left (setOpen False s) =
     (if m_open s \<and> sint (hangtime_left s) \<le> 0 then hangtime s else hangtime_left s)"
  "m_open (setOpen False s) = m_open s"
  "hangtime (setOpen False s) = hangtime s"
  "squelchOpen (setOpen False s) = squelchOpen s"
  by (simp_all add: setOpen_def)

lemma setHangtime_fields:
  "hangtime_left (setHangtime n s) = hangtime_left s"
  "m_open (setHangtime n s) = m_open s"
  "squelchOpen (setHangtime n s) = squelchOpen s"
  "1 \<le> sint (hangtime (setHangtime n s))"
  by (simp_all add: setHangtime_def)

lemma Squelch_fields:
  "m_open Squelch = False" "hangtime Squelch = 1" "hangtime_left Squelch = 0"
  "squelchOpen Squelch = []"
  by (simp_all add: Squelch_def)

lemma audioIn_snd:
  "snd (audioIn det count s) =
     (let s1 = fold det_exec (fst det) s
      in if 0 < sint (hangtime_left s1) then
           if sint (hangtime_left s1 - count) \<le> 0
           then s1\<lparr>hangtime_left := hangtime_left s1 - count, m_open := False,
                   squelchOpen := squelchOpen s1 @ [False]\<rparr>
           else s1\<lparr>hangtime_left := hangtime_left s1 - count\<rparr>
         else s1)"
  by (simp add: audioIn_def processSamples_def emit_def Let_def)

lemma run_append: "run (xs @ ys) s = run ys (run xs s)"
  by (simp add: run_def)

lemma run_Cons: "run (c # cs) s = run cs (exec c s)"
  by (simp add: run_def)

subsection \<open>A positive countdown only while the flag is set\<close>

lemma setOpen_pos_open:
  "(0 < sint (hangtime_left s) \<longrightarrow> m_open s) \<Longrightarrow>
   0 < sint (hangtime_left (setOpen b s)) \<longrightarrow> m_open (setOpen b s)"
  by (cases b) (simp_all add: setOpen_True_fields setOpen_False_fields)

lemma det_exec_pos_open:
  "(0 < sint (hangtime_left s) \<longrightarrow> m_open s) \<Longrightarrow>
   0 < sint (hangtime_left (det_exec d s)) \<longrightarrow> m_open (det_exec d s)"
  by (cases d) (simp_all add: setOpen_pos_open setHangtime_fields)

lemma fold_det_exec_pos_open:
  "(0 < sint (hangtime_left s) \<longrightarrow> m_open s) \<Longrightarrow>
   0 < sint (hangtime_left (fold det_exec ds s)) \<longrightarrow> m_open (fold det_exec ds s)"
proof (induction ds arbitrary: s)
  case Nil
  then show ?case by simp
next
  case (Cons d ds)
  from Cons.prems have "0 < sint (hangtime_left (det_exec d s)) \<longrightarrow> m_open (det_exec d s)"
    by (rule det_exec_pos_open)
  then show ?case using Cons.IH by simp
qed

lemma audioIn_pos_open:
  assumes "0 < sint (hangtime_left s) \<longrightarrow> m_open s"
  shows "0 < sint (hangtime_left (snd (audioIn det count s)))
         \<longrightarrow> m_open (snd (audioIn det count s))"
proof -
  have "0 < sint (hangtime_left (fold det_exec (fst det) s))
        \<longrightarrow> m_open (fold det_exec (fst det) s)"
    using assms by (rule fold_det_exec_pos_open)
  then show ?thesis
    by (simp add: audioIn_def processSamples_def emit_def Let_def)
qed

lemma exec_pos_open:
  assumes "0 < sint (hangtime_left s) \<longrightarrow> m_open s"
  shows "0 < sint (hangtime_left (exec c s)) \<longrightarrow> m_open (exec c s)"
proof (cases c)
  case (SetOpen b)
  then show ?thesis using assms by (simp add: setOpen_pos_open)
next
  case (SetHangtime n)
  then show ?thesis using assms by (simp add: setHangtime_fields)
next
  case (AudioIn det count)
  then show ?thesis using audioIn_pos_open [OF assms] by simp
next
  case (Initialize cfg rx)
  then show ?thesis using assms by (simp add: initialize_def setHangtime_fields)
qed

lemma fold_exec_pos_open:
  "(0 < sint (hangtime_left s) \<longrightarrow> m_open s) \<Longrightarrow>
   0 < sint (hangtime_left (fold exec cs s)) \<longrightarrow> m_open (fold exec cs s)"
proof (induction cs arbitrary: s)
  case Nil
  then show ?case by simp
next
  case (Cons c cs)
  from Cons.prems have "0 < sint (hangtime_left (exec c s)) \<longrightarrow> m_open (exec c s)"
    by (rule exec_pos_open)
  then show ?case using Cons.IH by simp
qed

subsection \<open>The sign of the countdown follows the flag\<close>

lemma setOpen_window:
  assumes "1 \<le> sint (hangtime s)"
    and "m_open s \<longrightarrow> 0 \<le> sint (hangtime_left s)"
    and "\<not> m_open s \<longrightarrow> sint (hangtime_left s) \<le> 0"
  shows "1 \<le> sint (hangtime (setOpen b s))
    \<and> (m_open (setOpen b s) \<longrightarrow> 0 \<le> sint (hangtime_left (setOpen b s)))
    \<and> (\<not> m_open (setOpen b s) \<longrightarrow> sint (hangtime_left (setOpen b s)) \<le> 0)"
  using assms by (cases b) (simp_all add: setOpen_True_fields setOpen_False_fields)

lemma setHangtime_window:
  assumes "m_open s \<longrightarrow> 0 \<le> sint (hangtime_left s)"
    and "\<not> m_open s \<longrightarrow> sint (hangtime_left s) \<le> 0"
  shows "1 \<le> sint (hangtime (setHangtime n s))
    \<and> (m_open (setHangtime n s) \<longrightarrow> 0 \<le> sint (hangtime_left (setHangtime n s)))
    \<and> (\<not> m_open (setHangtime n s) \<longrightarrow> sint (hangtime_left (setHangtime n s)) \<le> 0)"
  using assms by (simp add: setHangtime_fields)

lemma det_exec_window:
  assumes "1 \<le> sint (hangtime s)"
    and "m_open s \<longrightarrow> 0 \<le> sint (hangtime_left s)"
    and "\<not> m_open s \<longrightarrow> sint (hangtime_left s) \<le> 0"
  shows "1 \<le> sint (hangtime (det_exec d s))
    \<and> (m_open (det_exec d s) \<longrightarrow> 0 \<le> sint (hangtime_left (det_exec d s)))
    \<and> (\<not> m_open (det_exec d s) \<longrightarrow> sint (hangtime_left (det_exec d s)) \<le> 0)"
proof (cases d)
  case (DetSetOpen b)
  then show ?thesis using setOpen_window [OF assms, of b] by simp
next
  case (DetSetHangtime n)
  then show ?thesis using setHangtime_window [OF assms(2,3), of n] by simp
qed

lemma fold_det_exec_window:
  "1 \<le> sint (hangtime s) \<Longrightarrow>
   m_open s \<longrightarrow> 0 \<le> sint (hangtime_left s) \<Longrightarrow>
   \<not> m_open s \<longrightarrow> sint (hangtime_left s) \<le> 0 \<Longrightarrow>
   1 \<le> sint (hangtime (fold det_exec ds s))
    \<and> (m_open (fold det_exec ds s) \<longrightarrow> 0 \<le> sint (hangtime_left (fold det_exec ds s)))
    \<and> (\<not> m_open (fold det_exec ds s) \<longrightarrow> sint (hangtime_left (fold det_exec ds s)) \<le> 0)"
proof (induction ds arbitrary: s)
  case Nil
  then show ?case by simp
next
  case (Cons d ds)
  have step: "1 \<le> sint (hangtime (det_exec d s))
    \<and> (m_open (det_exec d s) \<longrightarrow> 0 \<le> sint (hangtime_left (det_exec d s)))
    \<and> (\<not> m_open (det_exec d s) \<longrightarrow> sint (hangtime_left (det_exec d s)) \<le> 0)"
    using Cons.prems by (rule det_exec_window)
  show ?case
    using Cons.IH [of "det_exec d s"] step by simp
qed

lemma audioIn_window:
  assumes "1 \<le> sint (hangtime s)"
    and "m_open s \<longrightarrow> 0 \<le> sint (hangtime_left s)"
    and "\<not> m_open s \<longrightarrow> sint (hangtime_left s) \<le> 0"
  shows "1 \<le> sint (hangtime (snd (audioIn det count s)))
    \<and> (m_open (snd (audioIn det count s))
          \<longrightarrow> 0 \<le> sint (hangtime_left (snd (audioIn det count s))))
    \<and> (\<not> m_open (snd (audioIn det count s))
          \<longrightarrow> sint (hangtime_left (snd (audioIn det count s))) \<le> 0)"
proof -
  define s1 where "s1 = fold det_exec (fst det) s"
  have inv1: "1 \<le> sint (hangtime s1)" "m_open s1 \<longrightarrow> 0 \<le> sint (hangtime_left s1)"
    "\<not> m_open s1 \<longrightarrow> sint (hangtime_left s1) \<le> 0"
    using fold_det_exec_window [OF assms, of "fst det"] by (simp_all add: s1_def)
  have res: "snd (audioIn det count s) =
      (if 0 < sint (hangtime_left s1) then
         if sint (hangtime_left s1 - count) \<le> 0
         then s1\<lparr>hangtime_left := hangtime_left s1 - count, m_open := False,
                 squelchOpen := squelchOpen s1 @ [False]\<rparr>
         else s1\<lparr>hangtime_left := hangtime_left s1 - count\<rparr>
       else s1)"
    by (simp add: audioIn_snd s1_def Let_def)
  show ?thesis
  proof (cases "0 < sint (hangtime_left s1)")
    case False
    then show ?thesis using inv1 res by simp
  next
    case True
    then have "m_open s1" using inv1(3) by auto
    then show ?thesis using True inv1(1) res by auto
  qed
qed

lemma exec_window:
  assumes "1 \<le> sint (hangtime s)"
    and "m_open s \<longrightarrow> 0 \<le> sint (hangtime_left s)"
    and "\<not> m_open s \<longrightarrow> sint (hangtime_left s) \<le> 0"
  shows "1 \<le> sint (hangtime (exec c s))
    \<and> (m_open (exec c s) \<longrightarrow> 0 \<le> sint (hangtime_left (exec c s)))
    \<and> (\<not> m_open (exec c s) \<longrightarrow> sint (hangtime_left (exec c s)) \<le> 0)"
proof (cases c)
  case (SetOpen b)
  then show ?thesis using setOpen_window [OF assms, of b] by simp
next
  case (SetHangtime n)
  then show ?thesis using setHangtime_window [OF assms(2,3), of n] by simp
next
  case (AudioIn det count)
  then show ?thesis using audioIn_window [OF assms, of det count] by simp
next
  case (Initialize cfg rx)
  then show ?thesis
    using setHangtime_window [OF assms(2,3)] by (simp add: initialize_def)
qed

lemma fold_exec_window:
  "1 \<le> sint (hangtime s) \<Longrightarrow>
   m_open s \<longrightarrow> 0 \<le> sint (hangtime_left s) \<Longrightarrow>
   \<not> m_open s \<longrightarrow> sint (hangtime_left s) \<le> 0 \<Longrightarrow>
   1 \<le> sint (hangtime (fold exec cs s))
    \<and> (m_open (fold exec cs s) \<longrightarrow> 0 \<le> sint (hangtime_left (fold exec cs s)))
    \<and> (\<not> m_open (fold exec cs s) \<longrightarrow> sint (hangtime_left (fold exec cs s)) \<le> 0)"
proof (induction cs arbitrary: s)
  case Nil
  then show ?case by simp
next
  case (Cons c cs)
  have step: "1 \<le> sint (hangtime (exec c s))
    \<and> (m_open (exec c s) \<longrightarrow> 0 \<le> sint (hangtime_left (exec c s)))
    \<and> (\<not> m_open (exec c s) \<longrightarrow> sint (hangtime_left (exec c s)) \<le> 0)"
    using Cons.prems by (rule exec_window)
  show ?case
    using Cons.IH [of "exec c s"] step by simp
qed

subsection \<open>Open with no countdown: stable until a close is requested\<close>

lemma det_exec_active:
  assumes "m_open s" "hangtime_left s = 0" "\<not> det_closes d"
  shows "m_open (det_exec d s) \<and> hangtime_left (det_exec d s) = 0
         \<and> squelchOpen (det_exec d s) = squelchOpen s"
proof (cases d)
  case (DetSetOpen b)
  then show ?thesis using assms by (simp add: setOpen_True_fields)
next
  case (DetSetHangtime n)
  then show ?thesis using assms by (simp add: setHangtime_fields)
qed

lemma fold_det_exec_active:
  "m_open s \<Longrightarrow> hangtime_left s = 0 \<Longrightarrow> \<forall>d\<in>set ds. \<not> det_closes d \<Longrightarrow>
   m_open (fold det_exec ds s) \<and> hangtime_left (fold det_exec ds s) = 0
   \<and> squelchOpen (fold det_exec ds s) = squelchOpen s"
proof (induction ds arbitrary: s)
  case Nil
  then show ?case by simp
next
  case (Cons d ds)
  have step: "m_open (det_exec d s) \<and> hangtime_left (det_exec d s) = 0
         \<and> squelchOpen (det_exec d s) = squelchOpen s"
    using Cons.prems by (intro det_exec_active) simp_all
  have "\<forall>d\<in>set ds. \<not> det_closes d" using Cons.prems(3) by simp
  with step Cons.IH [of "det_exec d s"] show ?case by simp
qed

lemma audioIn_active:
  assumes "m_open s" "hangtime_left s = 0" "\<forall>d\<in>set (fst det). \<not> det_closes d"
  shows "m_open (snd (audioIn det count s)) \<and> hangtime_left (snd (audioIn det count s)) = 0
         \<and> squelchOpen (snd (audioIn det count s)) = squelchOpen s"
  using fold_det_exec_active [OF assms] by (simp add: audioIn_snd Let_def)

lemma exec_active:
  assumes "m_open s" "hangtime_left s = 0" "\<not> closes c"
  shows "m_open (exec c s) \<and> hangtime_left (exec c s) = 0
         \<and> squelchOpen (exec c s) = squelchOpen s"
proof (cases c)
  case (SetOpen b)
  then show ?thesis using assms by (simp add: setOpen_True_fields)
next
  case (SetHangtime n)
  then show ?thesis using assms by (simp add: setHangtime_fields)
next
  case (AudioIn det count)
  with assms(3) have "\<forall>d\<in>set (fst det). \<not> det_closes d"
    by (simp add: list_ex_iff)
  from audioIn_active [OF assms(1,2) this] AudioIn show ?thesis by simp
next
  case (Initialize cfg rx)
  then show ?thesis using assms by (simp add: initialize_def setHangtime_fields)
qed

lemma fold_exec_active:
  "m_open s \<Longrightarrow> hangtime_left s = 0 \<Longrightarrow> \<forall>c\<in>set cs. \<not> closes c \<Longrightarrow>
   m_open (fold exec cs s) \<and> hangtime_left (fold exec cs s) = 0
   \<and> squelchOpen (fold exec cs s) = squelchOpen s"
proof (induction cs arbitrary: s)
  case Nil
  then show ?case by simp
next
  case (Cons c cs)
  have step: "m_open (exec c s) \<and> hangtime_left (exec c s) = 0
         \<and> squelchOpen (exec c s) = squelchOpen s"
    using Cons.prems by (intro exec_active) simp_all
  have "\<forall>c\<in>set cs. \<not> closes c" using Cons.prems(3) by simp
  with step Cons.IH [of "exec c s"] show ?case by simp
qed

lemma reopen_then_quiet:
  assumes "0 < sint (hangtime_left s) \<longrightarrow> m_open s"
    and "0 < sint (hangtime_left s)"
    and "\<forall>c\<in>set cs. \<not> closes c"
  shows "m_open (fold exec cs (setOpen True s))
    \<and> hangtime_left (fold exec cs (setOpen True s)) = 0
    \<and> squelchOpen (fold exec cs (setOpen True s)) = squelchOpen s"
proof -
  have op: "m_open s" using assms(1,2) by simp
  have a1: "m_open (setOpen True s)" and a2: "hangtime_left (setOpen True s) = 0"
    and a3: "squelchOpen (setOpen True s) = squelchOpen s"
    using op by (simp_all add: setOpen_True_fields)
  show ?thesis
    using fold_exec_active [OF a1 a2 assms(3)] a3 by simp
qed

lemma detector_reopen_then_quiet:
  assumes "0 < sint (hangtime_left s) \<longrightarrow> m_open s"
    and "0 < sint (hangtime_left (fold det_exec ds1 s))"
    and "\<forall>d\<in>set ds2. \<not> det_closes d"
    and "\<forall>c\<in>set cs. \<not> closes c"
  shows "m_open (fold exec cs (snd (audioIn (ds1 @ DetSetOpen True # ds2, r) count s)))
    \<and> hangtime_left (fold exec cs (snd (audioIn (ds1 @ DetSetOpen True # ds2, r) count s))) = 0
    \<and> squelchOpen (fold exec cs (snd (audioIn (ds1 @ DetSetOpen True # ds2, r) count s)))
        = squelchOpen (fold det_exec ds1 s)"
proof -
  define s1 where "s1 = fold det_exec ds1 s"
  have "0 < sint (hangtime_left s1) \<longrightarrow> m_open s1"
    unfolding s1_def using assms(1) by (rule fold_det_exec_pos_open)
  then have op: "m_open s1" using assms(2) by (simp add: s1_def)
  have a1: "m_open (setOpen True s1)" and a2: "hangtime_left (setOpen True s1) = 0"
    and a3: "squelchOpen (setOpen True s1) = squelchOpen s1"
    using op by (simp_all add: setOpen_True_fields)
  define s2 where "s2 = fold det_exec ds2 (setOpen True s1)"
  have b: "m_open s2 \<and> hangtime_left s2 = 0 \<and> squelchOpen s2 = squelchOpen (setOpen True s1)"
    unfolding s2_def using a1 a2 assms(3) by (rule fold_det_exec_active)
  have "fold det_exec (ds1 @ DetSetOpen True # ds2) s = s2"
    by (simp add: s2_def s1_def)
  then have res: "snd (audioIn (ds1 @ DetSetOpen True # ds2, r) count s) = s2"
    using b by (simp add: audioIn_snd Let_def)
  have "m_open (fold exec cs s2) \<and> hangtime_left (fold exec cs s2) = 0
      \<and> squelchOpen (fold exec cs s2) = squelchOpen s2"
    using b assms(4) by (intro fold_exec_active) simp_all
  then show ?thesis using res b a3 by (simp add: s1_def)
qed

subsection \<open>A detector that does not reopen leaves a running countdown alone\<close>

lemma det_exec_no_reopen:
  assumes "0 < sint (hangtime_left s)" "d \<noteq> DetSetOpen True"
  shows "hangtime_left (det_exec d s) = hangtime_left s \<and> m_open (det_exec d s) = m_open s
         \<and> squelchOpen (det_exec d s) = squelchOpen s"
proof (cases d)
  case (DetSetOpen b)
  with assms(2) have "b = False" by simp
  with DetSetOpen assms(1) show ?thesis by (simp add: setOpen_False_fields)
next
  case (DetSetHangtime n)
  then show ?thesis by (simp add: setHangtime_fields)
qed

lemma fold_det_exec_no_reopen:
  "0 < sint (hangtime_left s) \<Longrightarrow> DetSetOpen True \<notin> set ds \<Longrightarrow>
   hangtime_left (fold det_exec ds s) = hangtime_left s
   \<and> m_open (fold det_exec ds s) = m_open s
   \<and> squelchOpen (fold det_exec ds s) = squelchOpen s"
proof (induction ds arbitrary: s)
  case Nil
  then show ?case by simp
next
  case (Cons d ds)
  have step: "hangtime_left (det_exec d s) = hangtime_left s \<and> m_open (det_exec d s) = m_open s
         \<and> squelchOpen (det_exec d s) = squelchOpen s"
    using Cons.prems by (intro det_exec_no_reopen) auto
  then have "0 < sint (hangtime_left (det_exec d s))" using Cons.prems(1) by simp
  moreover have "DetSetOpen True \<notin> set ds" using Cons.prems(2) by simp
  ultimately show ?case using Cons.IH [of "det_exec d s"] step by simp
qed

subsection \<open>The flag is cleared only together with a close signal\<close>

lemma setOpen_events:
  assumes "squelchOpen s = base @ evs" "False \<notin> set evs \<longrightarrow> m_open s"
  shows "\<exists>evs'. squelchOpen (setOpen b s) = base @ evs'
           \<and> (False \<notin> set evs' \<longrightarrow> m_open (setOpen b s))"
proof (cases b)
  case True
  then show ?thesis using assms by (cases "m_open s") (simp_all add: setOpen_True_fields)
next
  case False
  then show ?thesis using assms by (simp add: setOpen_False_fields)
qed

lemma det_exec_events:
  assumes "squelchOpen s = base @ evs" "False \<notin> set evs \<longrightarrow> m_open s"
  shows "\<exists>evs'. squelchOpen (det_exec d s) = base @ evs'
           \<and> (False \<notin> set evs' \<longrightarrow> m_open (det_exec d s))"
proof (cases d)
  case (DetSetOpen b)
  then show ?thesis using setOpen_events [OF assms, of b] by simp
next
  case (DetSetHangtime n)
  then show ?thesis using assms by (simp add: setHangtime_fields)
qed

lemma fold_det_exec_events:
  "squelchOpen s = base @ evs \<Longrightarrow> False \<notin> set evs \<longrightarrow> m_open s \<Longrightarrow>
   \<exists>evs'. squelchOpen (fold det_exec ds s) = base @ evs'
           \<and> (False \<notin> set evs' \<longrightarrow> m_open (fold det_exec ds s))"
proof (induction ds arbitrary: s evs)
  case Nil
  then show ?case by simp
next
  case (Cons d ds)
  from det_exec_events [OF Cons.prems, of d] obtain evs1
    where "squelchOpen (det_exec d s) = base @ evs1"
      and "False \<notin> set evs1 \<longrightarrow> m_open (det_exec d s)" by blast
  from Cons.IH [OF this] show ?case by simp
qed

lemma audioIn_events:
  assumes "squelchOpen s = base @ evs" "False \<notin> set evs \<longrightarrow> m_open s"
  shows "\<exists>evs'. squelchOpen (snd (audioIn det count s)) = base @ evs'
           \<and> (False \<notin> set evs' \<longrightarrow> m_open (snd (audioIn det count s)))"
proof -
  from fold_det_exec_events [OF assms, of "fst det"] obtain evs1
    where e: "squelchOpen (fold det_exec (fst det) s) = base @ evs1"
      and m: "False \<notin> set evs1 \<longrightarrow> m_open (fold det_exec (fst det) s)" by blast
  show ?thesis using e m by (simp add: audioIn_snd Let_def)
qed

lemma exec_events:
  assumes "squelchOpen s = base @ evs" "False \<notin> set evs \<longrightarrow> m_open s"
  shows "\<exists>evs'. squelchOpen (exec c s) = base @ evs'
           \<and> (False \<notin> set evs' \<longrightarrow> m_open (exec c s))"
proof (cases c)
  case (SetOpen b)
  then show ?thesis using setOpen_events [OF assms, of b] by simp
next
  case (SetHangtime n)
  then show ?thesis using assms by (simp add: setHangtime_fields)
next
  case (AudioIn det count)
  then show ?thesis using audioIn_events [OF assms, of det count] by simp
next
  case (Initialize cfg rx)
  then show ?thesis using assms by (simp add: initialize_def setHangtime_fields)
qed

lemma fold_exec_events:
  "squelchOpen s = base @ evs \<Longrightarrow> False \<notin> set evs \<longrightarrow> m_open s \<Longrightarrow>
   \<exists>evs'. squelchOpen (fold exec cs s) = base @ evs'
           \<and> (False \<notin> set evs' \<longrightarrow> m_open (fold exec cs s))"
proof (induction cs arbitrary: s evs)
  case Nil
  then show ?case by simp
next
  case (Cons c cs)
  from exec_events [OF Cons.prems, of c] obtain evs1
    where "squelchOpen (exec c s) = base @ evs1"
      and "False \<notin> set evs1 \<longrightarrow> m_open (exec c s)" by blast
  from Cons.IH [OF this] show ?case by simp
qed

lemma open_until_close_event:
  assumes "m_open s"
  shows "take (length (squelchOpen s)) (squelchOpen (fold exec cs s)) = squelchOpen s
    \<and> (False \<notin> set (drop (length (squelchOpen s)) (squelchOpen (fold exec cs s)))
         \<longrightarrow> m_open (fold exec cs s))"
proof -
  have "squelchOpen s = squelchOpen s @ []" by simp
  moreover have "False \<notin> set [] \<longrightarrow> m_open s" using assms by simp
  ultimately obtain evs' where "squelchOpen (fold exec cs s) = squelchOpen s @ evs'"
      and "False \<notin> set evs' \<longrightarrow> m_open (fold exec cs s)"
    using fold_exec_events [of s "squelchOpen s" "[]" cs] by blast
  then show ?thesis by simp
qed

subsection \<open>Arithmetic of the configuration value\<close>

lemma sint_times_8:
  fixes w :: cint
  assumes "- (2 ^ 28) \<le> sint w" and "sint w < 2 ^ 28"
  shows "sint (w * 8) = sint w * 8"
proof -
  have "sint (w * 8) = signed_take_bit 31 (sint w * sint (8 :: cint))"
    by (simp add: sint_word_ariths)
  also have "\<dots> = signed_take_bit 31 (sint w * 8)" by simp
  also have "\<dots> = sint w * 8"
    using assms by (intro signed_take_bit_int_eq_self) simp_all
  finally show ?thesis .
qed

lemma strtol_digits_no_digit:
  "\<forall>c\<in>set cs. \<not> isdigit c \<Longrightarrow> strtol_digits cs acc = acc"
  by (cases cs) simp_all

lemma strtol_no_digit:
  assumes "\<forall>c\<in>set v. \<not> isdigit c"
  shows "strtol v = 0"
proof (cases "dropWhile isspace v")
  case Nil
  show ?thesis unfolding strtol_def Nil by simp
next
  case (Cons c cs)
  have "set (dropWhile isspace v) \<subseteq> set v" by (rule set_dropWhileD [THEN subsetI])
  with Cons assms have nd: "\<forall>x\<in>set (c # cs). \<not> isdigit x" by auto
  then have nd': "\<forall>x\<in>set cs. \<not> isdigit x" by simp
  show ?thesis
    unfolding strtol_def Cons
    using strtol_digits_no_digit [OF nd, of 0] strtol_digits_no_digit [OF nd', of 0]
    by (simp add: LONG_MAX_def LONG_MIN_def del: strtol_digits.simps)
qed

lemma atoi_no_digit:
  assumes "\<forall>c\<in>set v. \<not> isdigit c"
  shows "atoi v = 0"
  using strtol_no_digit [OF assms] by (simp add: atoi_def)

subsection \<open>Reading a decimal numeral\<close>

lemma digit_char:
  assumes "d < 10"
  shows "isdigit (char_of (48 + d))" and "(of_char (char_of (48 + d)) :: int) - 48 = int d"
proof -
  have "(of_char (char_of (48 + d)) :: nat) = 48 + d"
    using assms by (simp add: of_char_of)
  then show "isdigit (char_of (48 + d))" using assms by (simp add: isdigit_def)
  have "(of_char (char_of (48 + d)) :: int) = int (of_char (char_of (48 + d)))"
    by (simp only: of_nat_of_char)
  also have "\<dots> = 48 + int d" using assms by (simp add: of_char_of)
  finally show "(of_char (char_of (48 + d)) :: int) - 48 = int d" by simp
qed

lemma strtol_digits_append:
  "\<forall>c\<in>set xs. isdigit c \<Longrightarrow>
   strtol_digits (xs @ ys) acc = strtol_digits ys (strtol_digits xs acc)"
  by (induction xs arbitrary: acc) simp_all

lemma decimal_digits: "\<forall>c\<in>set (decimal n). isdigit c"
proof (induction n rule: decimal.induct)
  case (1 n)
  show ?case
  proof (cases "n < 10")
    case True
    then show ?thesis by (simp add: decimal.simps [of n] digit_char(1))
  next
    case False
    have "n mod 10 < 10" by simp
    then have "isdigit (char_of (48 + n mod 10))" by (rule digit_char(1))
    then show ?thesis using False "1.IH" by (simp add: decimal.simps [of n])
  qed
qed

lemma strtol_digits_decimal: "strtol_digits (decimal n) 0 = int n"
proof (induction n rule: decimal.induct)
  case (1 n)
  show ?case
  proof (cases "n < 10")
    case True
    then show ?thesis by (simp add: decimal.simps [of n] digit_char)
  next
    case False
    have d: "n mod 10 < 10" by simp
    have "strtol_digits (decimal n) 0
        = strtol_digits [char_of (48 + n mod 10)] (strtol_digits (decimal (n div 10)) 0)"
      using False by (simp add: decimal.simps [of n] strtol_digits_append decimal_digits)
    also have "\<dots> = int (n div 10) * 10 + int (n mod 10)"
      using False "1.IH" digit_char [OF d] by simp
    also have "\<dots> = int n" by (simp add: zdiv_int zmod_int)
    finally show ?thesis .
  qed
qed

lemma decimal_Cons: "\<exists>c cs. decimal n = c # cs \<and> isdigit c"
proof (cases "decimal n")
  case Nil
  then show ?thesis by (cases "n < 10") (simp_all add: decimal.simps [of n])
next
  case (Cons c cs)
  then show ?thesis using decimal_digits [of n] by simp
qed

lemma isdigit_not_skipped:
  assumes "isdigit c"
  shows "\<not> isspace c" and "c \<noteq> CHR ''-''" and "c \<noteq> CHR ''+''"
  using assms by (auto simp: isdigit_def isspace_def)

lemma strtol_digits_stop:
  "rest = [] \<or> \<not> isdigit (hd rest) \<Longrightarrow> strtol_digits rest acc = acc"
  by (cases rest) auto

lemma strtol_digits_decimal_rest:
  assumes "rest = [] \<or> \<not> isdigit (hd rest)"
  shows "strtol_digits (decimal n @ rest) 0 = int n"
proof -
  have "strtol_digits (decimal n @ rest) 0 = strtol_digits rest (strtol_digits (decimal n) 0)"
    by (rule strtol_digits_append) (rule decimal_digits)
  also have "\<dots> = int n"
    using assms by (simp add: strtol_digits_stop strtol_digits_decimal)
  finally show ?thesis .
qed

lemma strtol_decimal:
  assumes "\<forall>c\<in>set ws. isspace c" and "rest = [] \<or> \<not> isdigit (hd rest)"
    and "n < 2 ^ 63"
  shows "strtol (ws @ decimal n @ rest) = int n"
proof -
  obtain c cs where dec: "decimal n = c # cs" and dig: "isdigit c"
    using decimal_Cons by blast
  have "dropWhile isspace (ws @ decimal n @ rest) = dropWhile isspace (decimal n @ rest)"
    using assms(1) by (simp add: dropWhile_append2)
  also have "\<dots> = c # cs @ rest"
    using dec isdigit_not_skipped(1) [OF dig] by simp
  finally have dw: "dropWhile isspace (ws @ decimal n @ rest) = c # cs @ rest" .
  have v: "strtol_digits (c # cs @ rest) 0 = int n"
    using strtol_digits_decimal_rest [OF assms(2), of n] by (simp add: dec)
  have "int n < 2 ^ 63" using assms(3) by (simp flip: of_nat_less_iff)
  then have "min LONG_MAX (int n) = int n" by (simp add: LONG_MAX_def)
  then show ?thesis
    unfolding strtol_def dw using isdigit_not_skipped(2,3) [OF dig] v
    by (simp del: strtol_digits.simps)
qed

lemma strtol_plus_decimal:
  assumes "\<forall>c\<in>set ws. isspace c" and "rest = [] \<or> \<not> isdigit (hd rest)"
    and "n < 2 ^ 63"
  shows "strtol (ws @ CHR ''+'' # decimal n @ rest) = int n"
proof -
  have "dropWhile isspace (ws @ CHR ''+'' # decimal n @ rest)
      = dropWhile isspace (CHR ''+'' # decimal n @ rest)"
    using assms(1) by (simp add: dropWhile_append2)
  also have "\<dots> = CHR ''+'' # decimal n @ rest" by (simp add: isspace_def)
  finally have dw: "dropWhile isspace (ws @ CHR ''+'' # decimal n @ rest)
      = CHR ''+'' # decimal n @ rest" .
  have "int n < 2 ^ 63" using assms(3) by (simp flip: of_nat_less_iff)
  then have "min LONG_MAX (int n) = int n" by (simp add: LONG_MAX_def)
  then show ?thesis
    unfolding strtol_def dw using strtol_digits_decimal_rest [OF assms(2), of n]
    by simp
qed

lemma strtol_minus_decimal:
  assumes "\<forall>c\<in>set ws. isspace c" and "rest = [] \<or> \<not> isdigit (hd rest)"
    and "n \<le> 2 ^ 63"
  shows "strtol (ws @ CHR ''-'' # decimal n @ rest) = - int n"
proof -
  have "dropWhile isspace (ws @ CHR ''-'' # decimal n @ rest)
      = dropWhile isspace (CHR ''-'' # decimal n @ rest)"
    using assms(1) by (simp add: dropWhile_append2)
  also have "\<dots> = CHR ''-'' # decimal n @ rest" by (simp add: isspace_def)
  finally have dw: "dropWhile isspace (ws @ CHR ''-'' # decimal n @ rest)
      = CHR ''-'' # decimal n @ rest" .
  have "int n \<le> 2 ^ 63" using assms(3) by (simp flip: of_nat_le_iff)
  then have "max LONG_MIN (- int n) = - int n" by (simp add: LONG_MIN_def)
  then show ?thesis
    unfolding strtol_def dw using strtol_digits_decimal_rest [OF assms(2), of n]
    by simp
qed

lemma strtol_decimal_saturated:
  assumes "\<forall>c\<in>set ws. isspace c" and "sg = [] \<or> sg = ''+''"
    and "rest = [] \<or> \<not> isdigit (hd rest)"
  shows "strtol (ws @ sg @ decimal n @ rest) = min LONG_MAX (int n)"
proof -
  obtain c cs where dec: "decimal n = c # cs" and dig: "isdigit c"
    using decimal_Cons by blast
  have v: "strtol_digits (c # cs @ rest) 0 = int n"
    using strtol_digits_decimal_rest [OF assms(3), of n] by (simp add: dec)
  from assms(2) show ?thesis
  proof
    assume sg: "sg = []"
    have "dropWhile isspace (ws @ decimal n @ rest) = dropWhile isspace (decimal n @ rest)"
      using assms(1) by (simp add: dropWhile_append2)
    also have "\<dots> = c # cs @ rest"
      using dec isdigit_not_skipped(1) [OF dig] by simp
    finally have dw: "dropWhile isspace (ws @ decimal n @ rest) = c # cs @ rest" .
    show ?thesis
      unfolding sg append_Nil strtol_def dw using isdigit_not_skipped(2,3) [OF dig] v
      by (simp del: strtol_digits.simps)
  next
    assume sg: "sg = ''+''"
    have "dropWhile isspace (ws @ CHR ''+'' # decimal n @ rest)
        = dropWhile isspace (CHR ''+'' # decimal n @ rest)"
      using assms(1) by (simp add: dropWhile_append2)
    also have "\<dots> = CHR ''+'' # decimal n @ rest" by (simp add: isspace_def)
    finally have dw: "dropWhile isspace (ws @ CHR ''+'' # decimal n @ rest)
        = CHR ''+'' # decimal n @ rest" .
    have "strtol (ws @ CHR ''+'' # decimal n @ rest) = min LONG_MAX (int n)"
      unfolding strtol_def dw using strtol_digits_decimal_rest [OF assms(3), of n]
      by simp
    then show ?thesis by (simp add: sg)
  qed
qed

lemma atoi_LONG_MAX: "(word_of_int LONG_MAX :: cint) = - 1"
  by (simp add: LONG_MAX_def)

lemma sint_atoi:
  assumes "strtol v = k" and "- (2 ^ 31) \<le> k" and "k < 2 ^ 31"
  shows "sint (atoi v) = k"
proof -
  have "sint (atoi v) = signed_take_bit 31 k"
    unfolding atoi_def assms(1) sint_sbintrunc' by simp
  also have "\<dots> = k" using assms(2,3) by (rule signed_take_bit_int_eq_self)
  finally show ?thesis .
qed

lemma nat_below_28:
  assumes "n \<le> (2::nat) ^ 28"
  shows "n < 2 ^ 31" and "n < 2 ^ 63" and "int n \<le> 2 ^ 28" and "int n < 2 ^ 31"
proof -
  have "(2::nat) ^ 28 < 2 ^ 31" and "(2::nat) ^ 28 < 2 ^ 63" by simp_all
  with assms show "n < 2 ^ 31" and "n < 2 ^ 63" by linarith+
  show "int n \<le> 2 ^ 28" using assms by (simp flip: of_nat_le_iff)
  then show "int n < 2 ^ 31" by simp
qed

section \<open>Properties\<close>

subsection \<open>audioIn\<close>

text \<open>
  C1. \<^verbatim>\<open>audioIn\<close> first runs the detector. If the countdown is then active, it is
  decremented by the whole \<open>count\<close>, whatever number of samples the detector reports
  as consumed; when the result is zero or below, the flag is cleared and exactly one
  \<open>False\<close> is emitted, otherwise flag and emissions stay as the detector left them.
  With no active countdown the state is the one the detector left. The value returned
  is always the detector's. A detector that does not call \<^verbatim>\<open>setOpen(true)\<close> leaves a
  countdown that was active at the call's entry, the flag and the emissions as they
  were, so that the decrement then starts from the entry's countdown.
\<close>

theorem audioIn_countdown:
  "fst (audioIn det count s) = fst (processSamples det count s)
   \<and> fst (audioIn det count s) = snd det
   \<and> (0 < sint (hangtime_left (snd (processSamples det count s))) \<longrightarrow>
        hangtime_left (snd (audioIn det count s))
          = hangtime_left (snd (processSamples det count s)) - count
        \<and> (sint (hangtime_left (snd (processSamples det count s)) - count) \<le> 0 \<longrightarrow>
             \<not> m_open (snd (audioIn det count s))
             \<and> squelchOpen (snd (audioIn det count s))
                 = squelchOpen (snd (processSamples det count s)) @ [False])
        \<and> (0 < sint (hangtime_left (snd (processSamples det count s)) - count) \<longrightarrow>
             m_open (snd (audioIn det count s)) = m_open (snd (processSamples det count s))
             \<and> squelchOpen (snd (audioIn det count s))
                 = squelchOpen (snd (processSamples det count s))))
   \<and> (sint (hangtime_left (snd (processSamples det count s))) \<le> 0 \<longrightarrow>
        snd (audioIn det count s) = snd (processSamples det count s))
   \<and> (0 < sint (hangtime_left s) \<and> DetSetOpen True \<notin> set (fst det) \<longrightarrow>
        hangtime_left (snd (processSamples det count s)) = hangtime_left s
        \<and> m_open (snd (processSamples det count s)) = m_open s
        \<and> squelchOpen (snd (processSamples det count s)) = squelchOpen s)"
proof -
  have "hangtime_left (snd (processSamples det count s)) = hangtime_left s
        \<and> m_open (snd (processSamples det count s)) = m_open s
        \<and> squelchOpen (snd (processSamples det count s)) = squelchOpen s"
    if "0 < sint (hangtime_left s)" "DetSetOpen True \<notin> set (fst det)"
    using fold_det_exec_no_reopen [OF that] by (simp add: processSamples_def)
  then show ?thesis
    by (simp add: audioIn_def processSamples_def emit_def Let_def)
qed

theorem audioIn_countdown_witness:
  "0 < sint (hangtime_left (setOpen False (setOpen True Squelch)))
   \<and> DetSetOpen True \<notin> set (fst ([DetSetOpen False], 7 :: cint))
   \<and> 0 < sint (hangtime_left (snd (processSamples ([DetSetOpen False], 7) 400
             (setOpen False (setOpen True Squelch)))))
   \<and> sint (hangtime_left (snd (processSamples ([DetSetOpen False], 7) 400
             (setOpen False (setOpen True Squelch)))) - 400) \<le> 0
   \<and> fst (audioIn ([DetSetOpen False], 7) 400 (setOpen False (setOpen True Squelch))) = 7
   \<and> sint (hangtime_left (snd (audioIn ([DetSetOpen False], 7) 400
             (setOpen False (setOpen True Squelch))))) = - 399
   \<and> \<not> m_open (snd (audioIn ([DetSetOpen False], 7) 400
             (setOpen False (setOpen True Squelch))))
   \<and> squelchOpen (snd (audioIn ([DetSetOpen False], 7) 400
             (setOpen False (setOpen True Squelch)))) = [True, False]"
  using audioIn_countdown
      [where det = "([DetSetOpen False], 7)" and count = 400
         and s = "setOpen False (setOpen True Squelch)"]
  by (simp add: processSamples_def setOpen_def Squelch_def emit_def)

subsection \<open>setOpen\<close>

text \<open>
  C2. \<^verbatim>\<open>setOpen(true)\<close> clears the countdown in every state. From a state with the
  flag unset it sets the flag and emits exactly one \<open>True\<close>; with the flag already set
  it emits nothing, so that a second call changes nothing more. The configured
  hangtime is not touched.
\<close>

theorem setOpen_true:
  "hangtime_left (setOpen True s) = 0
   \<and> m_open (setOpen True s)
   \<and> (\<not> m_open s \<longrightarrow> squelchOpen (setOpen True s) = squelchOpen s @ [True])
   \<and> (m_open s \<longrightarrow> squelchOpen (setOpen True s) = squelchOpen s)
   \<and> hangtime (setOpen True s) = hangtime s
   \<and> setOpen True (setOpen True s) = setOpen True s"
  by (simp add: setOpen_def emit_def Let_def)

theorem setOpen_true_witness:
  "\<not> m_open Squelch \<and> m_open (setOpen True Squelch)
   \<and> squelchOpen (setOpen True Squelch) = [True]
   \<and> squelchOpen (setOpen True (setOpen True Squelch)) = [True]
   \<and> hangtime_left (setOpen True (setOpen False (setOpen True Squelch))) = 0"
  using setOpen_true [of Squelch] setOpen_true [of "setOpen True Squelch"]
    setOpen_true [of "setOpen False (setOpen True Squelch)"]
  by (simp add: Squelch_def)

text \<open>
  C3. \<^verbatim>\<open>setOpen(false)\<close> starts the countdown, from the configured hangtime, exactly
  when the flag is set and no countdown is active; in every other state it changes
  nothing, in particular while a countdown is running. It never changes the flag and
  never emits.
\<close>

theorem setOpen_false:
  "(m_open s \<and> sint (hangtime_left s) \<le> 0 \<longrightarrow>
      setOpen False s = s\<lparr>hangtime_left := hangtime s\<rparr>)
   \<and> (\<not> (m_open s \<and> sint (hangtime_left s) \<le> 0) \<longrightarrow> setOpen False s = s)
   \<and> m_open (setOpen False s) = m_open s
   \<and> squelchOpen (setOpen False s) = squelchOpen s
   \<and> hangtime (setOpen False s) = hangtime s
   \<and> (0 < sint (hangtime_left s) \<longrightarrow> setOpen False s = s)"
  by (simp add: setOpen_def)

theorem setOpen_false_witness:
  "m_open (setOpen True (setHangtime 800 Squelch))
   \<and> sint (hangtime_left (setOpen True (setHangtime 800 Squelch))) \<le> 0
   \<and> hangtime_left (setOpen False (setOpen True (setHangtime 800 Squelch))) = 800
   \<and> m_open (setOpen False (setOpen True (setHangtime 800 Squelch)))
   \<and> squelchOpen (setOpen False (setOpen True (setHangtime 800 Squelch))) = [True]
   \<and> 0 < sint (hangtime_left (setOpen False (setOpen True (setHangtime 800 Squelch))))
   \<and> setOpen False (setOpen False (setOpen True (setHangtime 800 Squelch)))
       = setOpen False (setOpen True (setHangtime 800 Squelch))
   \<and> \<not> m_open Squelch \<and> setOpen False Squelch = Squelch"
  using setOpen_false [of "setOpen True (setHangtime 800 Squelch)"]
    setOpen_false [of "setOpen False (setOpen True (setHangtime 800 Squelch))"]
    setOpen_false [of Squelch]
  by (simp add: setOpen_def setHangtime_def Squelch_def emit_def)

subsection \<open>setHangtime\<close>

text \<open>
  C7. For every argument, \<^verbatim>\<open>setHangtime\<close> stores the larger of the argument and 1,
  so 0 and -5 both give 1; the countdown in progress, the latched flag and the emitted
  signals are left as they were.
\<close>

theorem setHangtime_clamps:
  "sint (hangtime (setHangtime n s)) = max (sint n) 1
   \<and> hangtime (setHangtime 0 s) = 1
   \<and> hangtime (setHangtime (- 5) s) = 1
   \<and> hangtime_left (setHangtime n s) = hangtime_left s
   \<and> m_open (setHangtime n s) = m_open s
   \<and> squelchOpen (setHangtime n s) = squelchOpen s"
  by (simp add: setHangtime_def)

subsection \<open>Reachable states\<close>

text \<open>
  C4. After any sequence of calls on a freshly constructed engine (\<^verbatim>\<open>setOpen\<close>,
  \<^verbatim>\<open>audioIn\<close> with any detector run, and also \<^verbatim>\<open>setHangtime\<close> and
  \<^verbatim>\<open>initialize\<close>), \<^verbatim>\<open>isOpen()\<close> equals the flag \<^verbatim>\<open>m_open\<close>, although it is
  computed as \<^verbatim>\<open>m_open || (hangtime_left > 0)\<close>.
\<close>

theorem isOpen_is_m_open: "isOpen (run cs Squelch) = m_open (run cs Squelch)"
proof -
  have "0 < sint (hangtime_left (fold exec cs Squelch)) \<longrightarrow> m_open (fold exec cs Squelch)"
    by (rule fold_exec_pos_open) (simp add: Squelch_fields)
  then show ?thesis by (auto simp: isOpen_def run_def)
qed

text \<open>
  C10. In every state reachable from the constructor's, a positive countdown implies
  that the flag is set, and every single call preserves that implication from any
  state in which it holds. The countdown can be negative after a close by expiry.
\<close>

theorem positive_countdown_implies_open:
  "(0 < sint (hangtime_left (run cs Squelch)) \<longrightarrow> m_open (run cs Squelch))
   \<and> ((0 < sint (hangtime_left s) \<longrightarrow> m_open s)
        \<longrightarrow> (0 < sint (hangtime_left (exec c s)) \<longrightarrow> m_open (exec c s)))
   \<and> sint (hangtime_left (run [SetOpen True, SetOpen False, AudioIn ([], 400) 400] Squelch)) < 0"
proof -
  have "0 < sint (hangtime_left (fold exec cs Squelch)) \<longrightarrow> m_open (fold exec cs Squelch)"
    by (rule fold_exec_pos_open) (simp add: Squelch_fields)
  moreover have "sint (hangtime_left (run [SetOpen True, SetOpen False, AudioIn ([], 400) 400]
      Squelch)) < 0"
    by (simp add: run_def setOpen_def audioIn_def processSamples_def Squelch_def emit_def)
  ultimately show ?thesis using exec_pos_open [of s c] by (simp add: run_def)
qed

theorem positive_countdown_implies_open_witness:
  "0 < sint (hangtime_left (run [SetOpen True, SetOpen False] Squelch))
   \<and> m_open (run [SetOpen True, SetOpen False] Squelch)
   \<and> 0 < sint (hangtime_left (setOpen False (setOpen True Squelch)))
   \<and> m_open (setOpen False (setOpen True Squelch))
   \<and> 0 < sint (hangtime_left (exec (AudioIn ([], 0) 0) (setOpen False (setOpen True Squelch))))
   \<and> m_open (exec (AudioIn ([], 0) 0) (setOpen False (setOpen True Squelch)))"
  using positive_countdown_implies_open
      [where cs = "[SetOpen True, SetOpen False]" and s = "setOpen False (setOpen True Squelch)"
         and c = "AudioIn ([], 0) 0"]
  by (simp add: run_def setOpen_def audioIn_def processSamples_def Squelch_def emit_def)

text \<open>
  C6, as the code has it. The countdown is not kept at or above zero: a block larger
  than what is left of the countdown leaves it negative once the engine has closed.
  What holds in every reachable state, and is preserved by every call from any state
  in which it holds, is: the configured hangtime is at least 1, the countdown is at
  or above zero while the flag is set and at or below zero while it is not (so it is
  positive only while the flag is set).
\<close>

theorem hang_window_invariant:
  "(1 \<le> sint (hangtime (run cs Squelch))
    \<and> (m_open (run cs Squelch) \<longrightarrow> 0 \<le> sint (hangtime_left (run cs Squelch)))
    \<and> (\<not> m_open (run cs Squelch) \<longrightarrow> sint (hangtime_left (run cs Squelch)) \<le> 0))
   \<and> (1 \<le> sint (hangtime s)
        \<and> (m_open s \<longrightarrow> 0 \<le> sint (hangtime_left s))
        \<and> (\<not> m_open s \<longrightarrow> sint (hangtime_left s) \<le> 0)
       \<longrightarrow> 1 \<le> sint (hangtime (exec c s))
        \<and> (m_open (exec c s) \<longrightarrow> 0 \<le> sint (hangtime_left (exec c s)))
        \<and> (\<not> m_open (exec c s) \<longrightarrow> sint (hangtime_left (exec c s)) \<le> 0))"
proof (rule conjI)
  show "1 \<le> sint (hangtime (run cs Squelch))
    \<and> (m_open (run cs Squelch) \<longrightarrow> 0 \<le> sint (hangtime_left (run cs Squelch)))
    \<and> (\<not> m_open (run cs Squelch) \<longrightarrow> sint (hangtime_left (run cs Squelch)) \<le> 0)"
    unfolding run_def by (rule fold_exec_window) (simp_all add: Squelch_fields)
next
  show "1 \<le> sint (hangtime s)
        \<and> (m_open s \<longrightarrow> 0 \<le> sint (hangtime_left s))
        \<and> (\<not> m_open s \<longrightarrow> sint (hangtime_left s) \<le> 0)
       \<longrightarrow> 1 \<le> sint (hangtime (exec c s))
        \<and> (m_open (exec c s) \<longrightarrow> 0 \<le> sint (hangtime_left (exec c s)))
        \<and> (\<not> m_open (exec c s) \<longrightarrow> sint (hangtime_left (exec c s)) \<le> 0)"
    using exec_window [of s c] by blast
qed

theorem hang_window_invariant_witness:
  "1 \<le> sint (hangtime (setOpen True Squelch))
   \<and> m_open (setOpen True Squelch)
   \<and> 0 \<le> sint (hangtime_left (setOpen True Squelch))
   \<and> m_open (exec (SetOpen False) (setOpen True Squelch))
   \<and> 0 \<le> sint (hangtime_left (exec (SetOpen False) (setOpen True Squelch)))
   \<and> \<not> m_open (run [SetOpen True, SetOpen False, AudioIn ([], 400) 400] Squelch)
   \<and> sint (hangtime_left (run [SetOpen True, SetOpen False, AudioIn ([], 400) 400] Squelch))
        \<le> 0"
  using hang_window_invariant
      [where cs = "[SetOpen True, SetOpen False, AudioIn ([], 400) 400]"
         and s = "setOpen True Squelch" and c = "SetOpen False"]
  by (simp add: run_def setOpen_def audioIn_def processSamples_def Squelch_def emit_def)

text \<open>
  C6 as the specification words it (the countdown is never negative, and it is
  non-zero only while the flag is set) fails after one open, one close request and
  one block of 400 samples with the default hangtime of 1: the engine is closed and
  the countdown is -399.
\<close>

theorem countdown_negative_counterexample:
  "\<not> 0 \<le> sint (hangtime_left (run [SetOpen True, SetOpen False, AudioIn ([], 400) 400] Squelch))
   \<and> hangtime_left (run [SetOpen True, SetOpen False, AudioIn ([], 400) 400] Squelch) \<noteq> 0
   \<and> \<not> m_open (run [SetOpen True, SetOpen False, AudioIn ([], 400) 400] Squelch)"
  by (simp add: run_def setOpen_def audioIn_def processSamples_def Squelch_def emit_def)

text \<open>
  C5. Let no later call request a close. If \<^verbatim>\<open>setOpen(true)\<close> is called while the
  countdown is active, directly or by the detector in the course of \<^verbatim>\<open>audioIn\<close>,
  then after every number of further calls \<^verbatim>\<open>isOpen()\<close> is true and nothing has
  been emitted since the countdown was seen active: the pending close never fires.
  Whatever the later calls are, \<^verbatim>\<open>isOpen()\<close> is true as long as no \<open>False\<close> has been
  emitted after the reopening.
\<close>

theorem reopen_cancels_close:
  assumes "\<forall>c\<in>set cs. \<not> closes c"
  shows "(0 < sint (hangtime_left (run pre Squelch)) \<longrightarrow>
      isOpen (run (pre @ SetOpen True # take n cs) Squelch)
      \<and> squelchOpen (run (pre @ SetOpen True # take n cs) Squelch)
          = squelchOpen (run pre Squelch))
    \<and> (0 < sint (hangtime_left (fold det_exec ds1 (run pre Squelch)))
        \<and> (\<forall>d\<in>set ds2. \<not> det_closes d) \<longrightarrow>
      isOpen (run (pre @ AudioIn (ds1 @ DetSetOpen True # ds2, r) count # take n cs) Squelch)
      \<and> squelchOpen (run (pre @ AudioIn (ds1 @ DetSetOpen True # ds2, r) count # take n cs)
            Squelch)
          = squelchOpen (fold det_exec ds1 (run pre Squelch)))
    \<and> (0 < sint (hangtime_left (run pre Squelch)) \<longrightarrow>
      take (length (squelchOpen (run pre Squelch)))
          (squelchOpen (run (pre @ SetOpen True # later) Squelch))
        = squelchOpen (run pre Squelch)
      \<and> (False \<notin> set (drop (length (squelchOpen (run pre Squelch)))
                          (squelchOpen (run (pre @ SetOpen True # later) Squelch)))
          \<longrightarrow> isOpen (run (pre @ SetOpen True # later) Squelch)))"
proof -
  define s where "s = run pre Squelch"
  have inv: "0 < sint (hangtime_left s) \<longrightarrow> m_open s"
    unfolding s_def run_def by (rule fold_exec_pos_open) (simp add: Squelch_fields)
  have quiet: "\<forall>c\<in>set (take n cs). \<not> closes c"
    using assms by (auto dest: in_set_takeD)
  have direct: "isOpen (run (pre @ SetOpen True # take n cs) Squelch)
      \<and> squelchOpen (run (pre @ SetOpen True # take n cs) Squelch) = squelchOpen s"
    if "0 < sint (hangtime_left s)"
    using reopen_then_quiet [OF inv that quiet]
    by (simp add: run_append run_Cons s_def [symmetric] isOpen_def) (simp add: run_def)
  have nested: "isOpen (run (pre @ AudioIn (ds1 @ DetSetOpen True # ds2, r) count # take n cs) Squelch)
      \<and> squelchOpen (run (pre @ AudioIn (ds1 @ DetSetOpen True # ds2, r) count # take n cs)
            Squelch)
          = squelchOpen (fold det_exec ds1 s)"
    if "0 < sint (hangtime_left (fold det_exec ds1 s))" "\<forall>d\<in>set ds2. \<not> det_closes d"
    using detector_reopen_then_quiet [OF inv that quiet, of r count]
    by (simp add: run_append run_Cons s_def [symmetric] isOpen_def) (simp add: run_def)
  have lasting: "take (length (squelchOpen s))
          (squelchOpen (run (pre @ SetOpen True # later) Squelch)) = squelchOpen s
      \<and> (False \<notin> set (drop (length (squelchOpen s))
                          (squelchOpen (run (pre @ SetOpen True # later) Squelch)))
          \<longrightarrow> isOpen (run (pre @ SetOpen True # later) Squelch))"
    if "0 < sint (hangtime_left s)"
  proof -
    have op: "m_open s" using inv that by simp
    have a1: "m_open (setOpen True s)"
      and a3: "squelchOpen (setOpen True s) = squelchOpen s"
      using op by (simp_all add: setOpen_True_fields)
    have fin: "run (pre @ SetOpen True # later) Squelch = fold exec later (setOpen True s)"
      by (simp add: run_def s_def)
    show ?thesis
      using open_until_close_event [OF a1, of later] by (simp add: a3 fin isOpen_def)
  qed
  show ?thesis using direct nested lasting by (simp add: s_def)
qed

theorem reopen_cancels_close_witness:
  "\<not> closes (AudioIn ([], 400) 400) \<and> \<not> closes (AudioIn ([DetSetOpen True], 400) 400)
   \<and> 0 < sint (hangtime_left (run [SetHangtime 800, SetOpen True, SetOpen False,
                                     AudioIn ([], 400) 400] Squelch))
   \<and> isOpen (run ([SetHangtime 800, SetOpen True, SetOpen False, AudioIn ([], 400) 400]
        @ SetOpen True # take 2 [AudioIn ([], 400) 400, AudioIn ([DetSetOpen True], 400) 400])
        Squelch)
   \<and> squelchOpen (run ([SetHangtime 800, SetOpen True, SetOpen False, AudioIn ([], 400) 400]
        @ SetOpen True # take 2 [AudioIn ([], 400) 400, AudioIn ([DetSetOpen True], 400) 400])
        Squelch) = [True]
   \<and> 0 < sint (hangtime_left (fold det_exec [DetSetOpen False]
         (run [SetHangtime 800, SetOpen True] Squelch)))
   \<and> \<not> det_closes (DetSetHangtime 5)
   \<and> isOpen (run ([SetHangtime 800, SetOpen True]
        @ AudioIn ([DetSetOpen False] @ DetSetOpen True # [DetSetHangtime 5], 400) 400
          # take 2 [AudioIn ([], 400) 400, AudioIn ([DetSetOpen True], 400) 400]) Squelch)
   \<and> squelchOpen (run ([SetHangtime 800, SetOpen True]
        @ AudioIn ([DetSetOpen False] @ DetSetOpen True # [DetSetHangtime 5], 400) 400
          # take 2 [AudioIn ([], 400) 400, AudioIn ([DetSetOpen True], 400) 400]) Squelch)
       = [True]
   \<and> False \<notin> set (drop (length (squelchOpen (run [SetHangtime 800, SetOpen True,
          SetOpen False, AudioIn ([], 400) 400] Squelch)))
        (squelchOpen (run ([SetHangtime 800, SetOpen True, SetOpen False, AudioIn ([], 400) 400]
          @ SetOpen True # [AudioIn ([], 400) 400, SetOpen False, AudioIn ([], 400) 400])
          Squelch)))
   \<and> isOpen (run ([SetHangtime 800, SetOpen True, SetOpen False, AudioIn ([], 400) 400]
          @ SetOpen True # [AudioIn ([], 400) 400, SetOpen False, AudioIn ([], 400) 400])
          Squelch)"
  using reopen_cancels_close
      [where cs = "[AudioIn ([], 400) 400, AudioIn ([DetSetOpen True], 400) 400]"
         and pre = "[SetHangtime 800, SetOpen True, SetOpen False, AudioIn ([], 400) 400]"
         and n = 2 and ?ds1.0 = "[]" and ?ds2.0 = "[]" and r = 0 and count = 0
         and later = "[AudioIn ([], 400) 400, SetOpen False, AudioIn ([], 400) 400]"]
    reopen_cancels_close
      [where cs = "[AudioIn ([], 400) 400, AudioIn ([DetSetOpen True], 400) 400]"
         and pre = "[SetHangtime 800, SetOpen True]" and n = 2
         and ?ds1.0 = "[DetSetOpen False]" and ?ds2.0 = "[DetSetHangtime 5]"
         and r = 400 and count = 400]
  by (simp add: run_def setOpen_def setHangtime_def audioIn_def processSamples_def
      Squelch_def emit_def)

subsection \<open>initialize\<close>

text \<open>
  C8, as the code has it. When the lookup of \<^verbatim>\<open>SQL_HANGTIME\<close> under the receiver's name
  yields a decimal number of milliseconds below 2^28 (after optional white space and
  an optional plus sign, and up to the first character that is no digit),
  \<^verbatim>\<open>initialize\<close> leaves a hangtime of eight times that number, and of 1 for the
  number 0; the value \<open>''100''\<close> gives 800. A number with a minus sign, down to -2^28,
  gives the hangtime 1. The call returns true and changes nothing else. The bound is
  that of the 32-bit product. A number from 2^63 on is read by \<^verbatim>\<open>atoi\<close> as -1 and gives
  the hangtime 1.
\<close>

theorem initialize_hangtime:
  "(cfg rx_name ''SQL_HANGTIME'' = Some (ws @ sg @ decimal n @ rest)
      \<and> (\<forall>c\<in>set ws. isspace c) \<and> (sg = [] \<or> sg = ''+'')
      \<and> (rest = [] \<or> \<not> isdigit (hd rest)) \<and> n < 2 ^ 28
     \<longrightarrow> sint (hangtime (snd (initialize cfg rx_name s))) = max (int n * 8) 1)
   \<and> (cfg rx_name ''SQL_HANGTIME'' = Some (ws @ ''-'' @ decimal n @ rest)
      \<and> (\<forall>c\<in>set ws. isspace c) \<and> (rest = [] \<or> \<not> isdigit (hd rest)) \<and> n \<le> 2 ^ 28
     \<longrightarrow> hangtime (snd (initialize cfg rx_name s)) = 1)
   \<and> (cfg rx_name ''SQL_HANGTIME'' = Some ''100''
     \<longrightarrow> hangtime (snd (initialize cfg rx_name s)) = 800)
   \<and> (cfg rx_name ''SQL_HANGTIME'' = Some (ws @ sg @ decimal n @ rest)
      \<and> (\<forall>c\<in>set ws. isspace c) \<and> (sg = [] \<or> sg = ''+'')
      \<and> (rest = [] \<or> \<not> isdigit (hd rest)) \<and> 2 ^ 63 \<le> n
     \<longrightarrow> hangtime (snd (initialize cfg rx_name s)) = 1)
   \<and> (cfg rx_name ''SQL_HANGTIME'' = Some ''9223372036854775809''
     \<longrightarrow> hangtime (snd (initialize cfg rx_name s)) = 1)
   \<and> fst (initialize cfg rx_name s)
   \<and> hangtime_left (snd (initialize cfg rx_name s)) = hangtime_left s
   \<and> m_open (snd (initialize cfg rx_name s)) = m_open s
   \<and> squelchOpen (snd (initialize cfg rx_name s)) = squelchOpen s"
proof -
  have scaled: "sint (hangtime (snd (initialize cfg rx_name s))) = max (int n * 8) 1"
    if v: "cfg rx_name ''SQL_HANGTIME'' = Some (ws @ sg @ decimal n @ rest)"
      and ws: "\<forall>c\<in>set ws. isspace c" and sg: "sg = [] \<or> sg = ''+''"
      and rest: "rest = [] \<or> \<not> isdigit (hd rest)" and n: "n < 2 ^ 28"
  proof -
    have le: "n \<le> 2 ^ 28" using n by simp
    have "strtol (ws @ sg @ decimal n @ rest) = int n"
      using sg strtol_decimal [OF ws rest nat_below_28(2) [OF le]]
        strtol_plus_decimal [OF ws rest nat_below_28(2) [OF le]] by auto
    then have a: "sint (atoi (ws @ sg @ decimal n @ rest)) = int n"
      using nat_below_28(4) [OF le] by (intro sint_atoi) simp_all
    have "int n < 2 ^ 28" using n by (simp flip: of_nat_less_iff)
    then have "sint (atoi (ws @ sg @ decimal n @ rest) * 8) = int n * 8"
      using a by (simp add: sint_times_8)
    then show ?thesis
      using v by (simp add: initialize_def setHangtime_def max_def)
  qed
  have negative: "hangtime (snd (initialize cfg rx_name s)) = 1"
    if v: "cfg rx_name ''SQL_HANGTIME'' = Some (ws @ ''-'' @ decimal n @ rest)"
      and ws: "\<forall>c\<in>set ws. isspace c"
      and rest: "rest = [] \<or> \<not> isdigit (hd rest)" and n: "n \<le> 2 ^ 28"
  proof -
    have "strtol (ws @ ''-'' @ decimal n @ rest) = - int n"
      using strtol_minus_decimal [OF ws rest, of n] nat_below_28(2) [OF n] by simp
    then have a: "sint (atoi (ws @ ''-'' @ decimal n @ rest)) = - int n"
      using nat_below_28(4) [OF n] by (intro sint_atoi) simp_all
    have "sint (atoi (ws @ ''-'' @ decimal n @ rest) * 8) = - int n * 8"
      using a nat_below_28(3) [OF n] by (simp add: sint_times_8)
    then show ?thesis
      using v by (simp add: initialize_def setHangtime_def)
  qed
  have hundred: "hangtime (snd (initialize cfg rx_name s)) = 800"
    if v: "cfg rx_name ''SQL_HANGTIME'' = Some ''100''"
    using v
    by (simp add: initialize_def setHangtime_def atoi_def strtol_def isspace_def isdigit_def
        LONG_MAX_def)
  have saturated: "hangtime (snd (initialize cfg rx_name s)) = 1"
    if v: "cfg rx_name ''SQL_HANGTIME'' = Some (ws @ sg @ decimal n @ rest)"
      and ws: "\<forall>c\<in>set ws. isspace c" and sg: "sg = [] \<or> sg = ''+''"
      and rest: "rest = [] \<or> \<not> isdigit (hd rest)" and n: "2 ^ 63 \<le> n"
  proof -
    have "int (2 ^ 63) \<le> int n" using n by (simp only: of_nat_le_iff)
    then have "(2::int) ^ 63 \<le> int n" by simp
    then have "min LONG_MAX (int n) = LONG_MAX" by (simp add: LONG_MAX_def)
    then have "strtol (ws @ sg @ decimal n @ rest) = LONG_MAX"
      using strtol_decimal_saturated [OF ws sg rest, of n] by simp
    then have "atoi (ws @ sg @ decimal n @ rest) = - 1"
      by (simp only: atoi_def atoi_LONG_MAX)
    then show ?thesis
      using v by (simp add: initialize_def setHangtime_def)
  qed
  have beyond: "hangtime (snd (initialize cfg rx_name s)) = 1"
    if v: "cfg rx_name ''SQL_HANGTIME'' = Some ''9223372036854775809''"
    using v
    by (simp add: initialize_def setHangtime_def atoi_def strtol_def isspace_def isdigit_def
        LONG_MAX_def)
  show ?thesis
    using scaled negative hundred saturated beyond
    by (simp add: initialize_def setHangtime_fields)
qed

theorem initialize_hangtime_witness:
  "(\<lambda>sec tag. if sec = ''Rx1'' \<and> tag = ''SQL_HANGTIME'' then Some '' 250ms'' else None)
      ''Rx1'' ''SQL_HANGTIME'' = Some ('' '' @ [] @ decimal 250 @ ''ms'')
   \<and> isspace CHR '' '' \<and> \<not> isdigit (hd ''ms'') \<and> (250 :: nat) < 2 ^ 28
   \<and> sint (hangtime (snd (initialize
        (\<lambda>sec tag. if sec = ''Rx1'' \<and> tag = ''SQL_HANGTIME'' then Some '' 250ms'' else None)
        ''Rx1'' Squelch))) = 2000
   \<and> (\<lambda>sec tag. if sec = ''Rx1'' \<and> tag = ''SQL_HANGTIME'' then Some ''-5'' else None)
      ''Rx1'' ''SQL_HANGTIME'' = Some ([] @ ''-'' @ decimal 5 @ [])
   \<and> (5 :: nat) \<le> 2 ^ 28
   \<and> hangtime (snd (initialize
        (\<lambda>sec tag. if sec = ''Rx1'' \<and> tag = ''SQL_HANGTIME'' then Some ''-5'' else None)
        ''Rx1'' (setHangtime 800 Squelch))) = 1
   \<and> (\<lambda>sec tag. if sec = ''Rx1'' \<and> tag = ''SQL_HANGTIME'' then Some ''100'' else None)
      ''Rx1'' ''SQL_HANGTIME'' = Some ([] @ [] @ decimal 100 @ [])
   \<and> hangtime (snd (initialize
        (\<lambda>sec tag. if sec = ''Rx1'' \<and> tag = ''SQL_HANGTIME'' then Some ''100'' else None)
        ''Rx1'' Squelch)) = 800
   \<and> (\<lambda>sec tag. if sec = ''Rx1'' \<and> tag = ''SQL_HANGTIME''
          then Some ''9223372036854775809'' else None)
      ''Rx1'' ''SQL_HANGTIME'' = Some ''9223372036854775809''
   \<and> hangtime (snd (initialize
        (\<lambda>sec tag. if sec = ''Rx1'' \<and> tag = ''SQL_HANGTIME''
            then Some ''9223372036854775809'' else None)
        ''Rx1'' (setHangtime 800 Squelch))) = 1
   \<and> (2 :: nat) ^ 63 \<le> 9223372036854775809
   \<and> hangtime (snd (initialize
        (\<lambda>sec tag. if sec = ''Rx1'' \<and> tag = ''SQL_HANGTIME''
            then Some (decimal 9223372036854775809) else None)
        ''Rx1'' (setHangtime 800 Squelch))) = 1"
proof -
  have d: "decimal 250 = ''250''" "decimal 5 = ''5''" "decimal 100 = ''100''"
    by code_simp+
  show ?thesis
    using initialize_hangtime
      [where cfg = "\<lambda>sec tag. if sec = ''Rx1'' \<and> tag = ''SQL_HANGTIME''
                      then Some '' 250ms'' else None"
         and rx_name = "''Rx1''" and ws = "'' ''" and sg = "[]" and n = 250
         and rest = "''ms''" and s = Squelch]
      initialize_hangtime
      [where cfg = "\<lambda>sec tag. if sec = ''Rx1'' \<and> tag = ''SQL_HANGTIME''
                      then Some ''-5'' else None"
         and rx_name = "''Rx1''" and ws = "[]" and sg = "[]" and n = 5
         and rest = "[]" and s = "setHangtime 800 Squelch"]
      initialize_hangtime
      [where cfg = "\<lambda>sec tag. if sec = ''Rx1'' \<and> tag = ''SQL_HANGTIME''
                      then Some ''100'' else None"
         and rx_name = "''Rx1''" and ws = "[]" and sg = "[]" and n = 100 and rest = "[]"
         and s = Squelch]
      initialize_hangtime
      [where cfg = "\<lambda>sec tag. if sec = ''Rx1'' \<and> tag = ''SQL_HANGTIME''
                      then Some ''9223372036854775809'' else None"
         and rx_name = "''Rx1''" and ws = "[]" and sg = "[]" and n = 0 and rest = "[]"
         and s = "setHangtime 800 Squelch"]
      initialize_hangtime
      [where cfg = "\<lambda>sec tag. if sec = ''Rx1'' \<and> tag = ''SQL_HANGTIME''
                      then Some (decimal 9223372036854775809) else None"
         and rx_name = "''Rx1''" and ws = "[]" and sg = "[]" and n = 9223372036854775809
         and rest = "[]" and s = "setHangtime 800 Squelch"]
    by (simp add: d isspace_def isdigit_def)
qed

text \<open>
  C8 as the specification words it, for every value found, fails where eight times the
  value does not fit 32 bits: 600000000 milliseconds give a hangtime of 505032704
  samples.
\<close>

theorem initialize_overflow_counterexample:
  "sint (hangtime (snd (initialize
      (\<lambda>sec tag. if sec = ''Rx1'' \<and> tag = ''SQL_HANGTIME'' then Some ''600000000'' else None)
      ''Rx1'' Squelch))) = 505032704
   \<and> sint (hangtime (snd (initialize
      (\<lambda>sec tag. if sec = ''Rx1'' \<and> tag = ''SQL_HANGTIME'' then Some ''600000000'' else None)
      ''Rx1'' Squelch))) \<noteq> 600000000 * 8"
  by (simp add: initialize_def setHangtime_def atoi_def strtol_def isspace_def isdigit_def
      LONG_MAX_def)

text \<open>
  C9. \<^verbatim>\<open>initialize\<close> returns true for every configuration and leaves a hangtime of at
  least 1. With the key missing, or with a value that holds no digit, the hangtime is
  1. Nothing else of the state is changed.
\<close>

theorem initialize_never_fails:
  "fst (initialize cfg rx_name s) = True
   \<and> 1 \<le> sint (hangtime (snd (initialize cfg rx_name s)))
   \<and> (cfg rx_name ''SQL_HANGTIME'' = None \<longrightarrow>
        hangtime (snd (initialize cfg rx_name s)) = 1)
   \<and> (cfg rx_name ''SQL_HANGTIME'' = Some v \<and> (\<forall>c\<in>set v. \<not> isdigit c) \<longrightarrow>
        hangtime (snd (initialize cfg rx_name s)) = 1)
   \<and> hangtime_left (snd (initialize cfg rx_name s)) = hangtime_left s
   \<and> m_open (snd (initialize cfg rx_name s)) = m_open s
   \<and> squelchOpen (snd (initialize cfg rx_name s)) = squelchOpen s"
proof -
  have "hangtime (snd (initialize cfg rx_name s)) = 1"
    if "cfg rx_name ''SQL_HANGTIME'' = Some v" "\<forall>c\<in>set v. \<not> isdigit c"
    using that(1) atoi_no_digit [OF that(2)] by (simp add: initialize_def setHangtime_def)
  moreover have "hangtime (snd (initialize cfg rx_name s)) = 1"
    if "cfg rx_name ''SQL_HANGTIME'' = None"
    using that by (simp add: initialize_def setHangtime_def)
  ultimately show ?thesis
    by (simp add: initialize_def setHangtime_fields)
qed

theorem initialize_never_fails_witness:
  "(\<lambda>sec tag. None :: string option) ''Rx1'' ''SQL_HANGTIME'' = None
   \<and> fst (initialize (\<lambda>sec tag. None) ''Rx1'' (setHangtime 800 Squelch))
   \<and> hangtime (snd (initialize (\<lambda>sec tag. None) ''Rx1'' (setHangtime 800 Squelch))) = 1
   \<and> (\<lambda>sec tag. Some ''abc'') ''Rx1'' ''SQL_HANGTIME'' = Some ''abc''
   \<and> \<not> isdigit CHR ''a'' \<and> \<not> isdigit CHR ''b'' \<and> \<not> isdigit CHR ''c''
   \<and> fst (initialize (\<lambda>sec tag. Some ''abc'') ''Rx1'' Squelch)
   \<and> hangtime (snd (initialize (\<lambda>sec tag. Some ''abc'') ''Rx1'' Squelch)) = 1"
  using initialize_never_fails
      [where cfg = "\<lambda>sec tag. None" and rx_name = "''Rx1''" and s = "setHangtime 800 Squelch"
         and v = "''''"]
    initialize_never_fails
      [where cfg = "\<lambda>sec tag. Some ''abc''" and rx_name = "''Rx1''" and s = Squelch
         and v = "''abc''"]
  by (simp add: isdigit_def)

end
